theory Spec2Isabelle
  imports Complex_Main "HOL-Library.Word"
begin

section \<open>Python numbers\<close>

text \<open>
  Python integers are unbounded: \<open>int\<close>. A finite double is modelled by the rational
  number it denotes; every arithmetic operation on doubles is the exact operation followed
  by \<open>fl\<close>, rounding to the nearest value with a 53-bit significand, ties to even
  (IEEE 754 binary64). The exponent range is not modelled: no value computed by the icon
  scripts comes near overflow or underflow.
\<close>

text \<open>The number of binary digits of a positive integer.\<close>

function bitlen :: "int \<Rightarrow> int" where
  "bitlen n = (if n \<le> 0 then 0 else 1 + bitlen (n div 2))"
  by pat_completeness auto
termination
  by (relation "measure nat") auto

declare bitlen.simps [simp del]

definition pow2 :: "int \<Rightarrow> rat" where
  "pow2 e = (if 0 \<le> e then 2 ^ nat e else 1 / 2 ^ nat (- e))"

text \<open>For \<open>x > 0\<close>, \<open>ilog2 x\<close> is the exponent \<open>k\<close> with \<open>2^k \<le> x < 2^(k+1)\<close>.\<close>

definition ilog2 :: "rat \<Rightarrow> int" where
  "ilog2 x = (case quotient_of x of (n, d) \<Rightarrow>
     let k = bitlen n - bitlen d
     in if pow2 k \<le> x then k else k - 1)"

definition round_half_even :: "rat \<Rightarrow> int" where
  "round_half_even x = (let f = \<lfloor>x\<rfloor>; r = x - of_int f in
     if r < 1 / 2 then f else if 1 / 2 < r then f + 1
     else if even f then f else f + 1)"

definition fl :: "rat \<Rightarrow> rat" where
  "fl x = (if x = 0 then 0 else
     let s = pow2 (ilog2 \<bar>x\<bar> - 52)
     in sgn x * of_int (round_half_even (\<bar>x\<bar> / s)) * s)"

text \<open>\<open>float(i)\<close>, also the implicit conversion in \<open>i * x\<close> with \<open>i\<close> an int.\<close>

definition float_of_int :: "int \<Rightarrow> rat" where
  "float_of_int i = fl (of_int i)"

text \<open>A decimal literal such as \<open>0.2237\<close> denotes the double nearest to it.\<close>

definition float_literal :: "rat \<Rightarrow> rat" where
  "float_literal q = fl q"

definition float_mul :: "rat \<Rightarrow> rat \<Rightarrow> rat" where
  "float_mul a b = fl (a * b)"

definition float_add :: "rat \<Rightarrow> rat \<Rightarrow> rat" where
  "float_add a b = fl (a + b)"

definition float_sub :: "rat \<Rightarrow> rat \<Rightarrow> rat" where
  "float_sub a b = fl (a - b)"

text \<open>\<open>i / j\<close> on two ints (true division, correctly rounded); the divisors of the
  scripts are the non-zero constants 100 and 1024.\<close>

definition int_truediv :: "int \<Rightarrow> int \<Rightarrow> rat" where
  "int_truediv i j = fl (of_int i / of_int j)"

text \<open>\<open>int(x)\<close> on a float truncates towards zero; \<open>round(x)\<close> rounds to the nearest
  integer, ties to even.\<close>

definition py_int :: "rat \<Rightarrow> int" where
  "py_int x = (if 0 \<le> x then \<lfloor>x\<rfloor> else \<lceil>x\<rceil>)"

definition py_round :: "rat \<Rightarrow> int" where
  "py_round x = round_half_even x"

section \<open>Pixel buffers\<close>

text \<open>
  An image of the imaging library: its dimensions and its pixels in row-major order.
  A band of mode \<open>L\<close> holds one 8-bit channel per pixel, an \<open>RGBA\<close> canvas a
  4-tuple of channels.
\<close>

type_synonym channel = "8 word"

type_synonym rgba = "channel \<times> channel \<times> channel \<times> channel"

record 'p image =
  width :: nat
  height :: nat
  pix :: "'p list"

definition wf_image :: "'p image \<Rightarrow> bool" where
  "wf_image im \<longleftrightarrow> length (pix im) = width im * height im"

datatype error = ValueError | IndexError | TypeError

definition red :: "rgba \<Rightarrow> channel" where
  "red p = (case p of (r, g, b, a) \<Rightarrow> r)"

definition green :: "rgba \<Rightarrow> channel" where
  "green p = (case p of (r, g, b, a) \<Rightarrow> g)"

definition blue :: "rgba \<Rightarrow> channel" where
  "blue p = (case p of (r, g, b, a) \<Rightarrow> b)"

definition alpha :: "rgba \<Rightarrow> channel" where
  "alpha p = (case p of (r, g, b, a) \<Rightarrow> a)"

text \<open>\<open>Image.new(mode, (w, h), colour)\<close>: the library rejects a negative dimension
  with ValueError and accepts zero.\<close>

definition image_new :: "int \<Rightarrow> int \<Rightarrow> 'p \<Rightarrow> error + 'p image" where
  "image_new w h colour =
     (if w < 0 \<or> h < 0 then Inl ValueError
      else Inr \<lparr>width = nat w, height = nat h, pix = replicate (nat w * nat h) colour\<rparr>)"

text \<open>\<open>getpixel\<close> and \<open>putpixel\<close> raise IndexError outside the image. The
  scripts only pass coordinates from \<open>range(size)\<close>, so coordinates are \<open>nat\<close>.\<close>

definition getpixel :: "'p image \<Rightarrow> nat \<times> nat \<Rightarrow> error + 'p" where
  "getpixel im xy = (case xy of (x, y) \<Rightarrow>
     if x < width im \<and> y < height im then Inr (pix im ! (y * width im + x))
     else Inl IndexError)"

definition putpixel :: "'p image \<Rightarrow> nat \<times> nat \<Rightarrow> 'p \<Rightarrow> error + 'p image" where
  "putpixel im xy v = (case xy of (x, y) \<Rightarrow>
     if x < width im \<and> y < height im
     then Inr (im\<lparr>pix := (pix im)[y * width im + x := v]\<rparr>)
     else Inl IndexError)"

definition band :: "(rgba \<Rightarrow> channel) \<Rightarrow> rgba image \<Rightarrow> channel image" where
  "band f im = \<lparr>width = width im, height = height im, pix = map f (pix im)\<rparr>"

text \<open>\<open>img.split()\<close> on an RGBA canvas.\<close>

definition split_bands ::
  "rgba image \<Rightarrow> channel image \<times> channel image \<times> channel image \<times> channel image" where
  "split_bands im = (band red im, band green im, band blue im, band alpha im)"

text \<open>\<open>img.putalpha(band)\<close> replaces the alpha channel; a band of other dimensions is
  rejected with ValueError.\<close>

definition putalpha :: "rgba image \<Rightarrow> channel image \<Rightarrow> error + rgba image" where
  "putalpha im al =
     (if width al = width im \<and> height al = height im
      then Inr (im\<lparr>pix := map2 (\<lambda>p a. (red p, green p, blue p, a)) (pix im) (pix al)\<rparr>)
      else Inl ValueError)"

subsection \<open>The rounded rectangle\<close>

text \<open>
  Modelled from the spec: \<open>ImageDraw.rounded_rectangle\<close> belongs to the imaging library
  and is not among the sources. The fill rule is the one of the specification, section 4.2:
  a pixel of the box is filled when it lies in the central cross (the box shrunk by the
  radius along one axis) or within the radius of one of the four corner centres, which are
  inset by the radius from each edge.
\<close>

definition within_radius :: "int \<Rightarrow> int \<times> int \<Rightarrow> int \<times> int \<Rightarrow> bool" where
  "within_radius r c p = (case c of (cx, cy) \<Rightarrow> case p of (x, y) \<Rightarrow>
     (x - cx) * (x - cx) + (y - cy) * (y - cy) \<le> r * r)"

definition inside_rounded_rectangle ::
  "int \<times> int \<times> int \<times> int \<Rightarrow> int \<Rightarrow> int \<times> int \<Rightarrow> bool" where
  "inside_rounded_rectangle box r p = (case box of (x0, y0, x1, y1) \<Rightarrow> case p of (x, y) \<Rightarrow>
     x0 \<le> x \<and> x \<le> x1 \<and> y0 \<le> y \<and> y \<le> y1 \<and>
     ((x0 + r \<le> x \<and> x \<le> x1 - r) \<or> (y0 + r \<le> y \<and> y \<le> y1 - r) \<or>
      within_radius r (x0 + r, y0 + r) p \<or> within_radius r (x1 - r, y0 + r) p \<or>
      within_radius r (x0 + r, y1 - r) p \<or> within_radius r (x1 - r, y1 - r) p))"

definition rounded_rectangle ::
  "channel image \<Rightarrow> int \<times> int \<times> int \<times> int \<Rightarrow> int \<Rightarrow> channel \<Rightarrow> channel image" where
  "rounded_rectangle im box radius fill =
     im\<lparr>pix := map (\<lambda>(i, v).
         if inside_rounded_rectangle box radius (int (i mod width im), int (i div width im))
         then fill else v) (zip [0..<length (pix im)] (pix im))\<rparr>"

text \<open>
  The call \<open>draw.rounded_rectangle(box, radius, fill)\<close> of the library: a box with
  \<open>x1 < x0\<close> or \<open>y1 < y0\<close> is rejected with ValueError before anything is drawn.
\<close>

definition draw_rounded_rectangle ::
  "channel image \<Rightarrow> int \<times> int \<times> int \<times> int \<Rightarrow> int \<Rightarrow> channel
    \<Rightarrow> error + channel image" where
  "draw_rounded_rectangle im box radius fill = (case box of (x0, y0, x1, y1) \<Rightarrow>
     if x1 < x0 \<or> y1 < y0 then Inl ValueError
     else Inr (rounded_rectangle im box radius fill))"

section \<open>Corner masking (generate\_icon.py)\<close>

text \<open>\<open>corner_radius = int(size * 0.2237)\<close>; the argument \<open>size\<close> is written \<open>sz\<close>
  and the variable \<open>mask\<close> is written \<open>msk\<close>, since HOL has constants of these names.\<close>

definition corner_radius :: "int \<Rightarrow> int" where
  "corner_radius sz = py_int (float_mul (float_of_int sz) (float_literal (2237 / 10000)))"

text \<open>Lines 196-201: the mask, black with the rounded rectangle filled with 255.\<close>

definition rounding_mask :: "int \<Rightarrow> error + channel image" where
  "rounding_mask sz =
     (case image_new sz sz 0 of
        Inl e \<Rightarrow> Inl e
      | Inr msk \<Rightarrow>
          draw_rounded_rectangle msk (0, 0, sz - 1, sz - 1) (corner_radius sz) 255)"

text \<open>The inner loop \<open>for x in range(size)\<close> and the outer loop \<open>for y in range(size)\<close>.\<close>

fun mask_row :: "channel image \<Rightarrow> channel image \<Rightarrow> nat \<Rightarrow> nat list \<Rightarrow> channel image
    \<Rightarrow> error + channel image" where
  "mask_row a msk y [] new_alpha = Inr new_alpha"
| "mask_row a msk y (x # xs) new_alpha =
     (case getpixel a (x, y) of
        Inl e \<Rightarrow> Inl e
      | Inr orig_alpha \<Rightarrow>
          (case getpixel msk (x, y) of
             Inl e \<Rightarrow> Inl e
           | Inr mask_alpha \<Rightarrow>
               (case putpixel new_alpha (x, y) (min orig_alpha mask_alpha) of
                  Inl e \<Rightarrow> Inl e
                | Inr new_alpha' \<Rightarrow> mask_row a msk y xs new_alpha')))"

fun mask_rows :: "channel image \<Rightarrow> channel image \<Rightarrow> nat \<Rightarrow> nat list \<Rightarrow> channel image
    \<Rightarrow> error + channel image" where
  "mask_rows a msk sz [] new_alpha = Inr new_alpha"
| "mask_rows a msk sz (y # ys) new_alpha =
     (case mask_row a msk y [0..<sz] new_alpha of
        Inl e \<Rightarrow> Inl e
      | Inr new_alpha' \<Rightarrow> mask_rows a msk sz ys new_alpha')"

definition apply_macos_rounding :: "rgba image \<Rightarrow> int \<Rightarrow> error + rgba image" where
  "apply_macos_rounding img sz =
     (case rounding_mask sz of
        Inl e \<Rightarrow> Inl e
      | Inr msk \<Rightarrow>
          (case split_bands img of (r, g, b, a) \<Rightarrow>
             (case image_new sz sz 0 of
                Inl e \<Rightarrow> Inl e
              | Inr new_alpha0 \<Rightarrow>
                  (case mask_rows a msk (nat sz) [0..<nat sz] new_alpha0 of
                     Inl e \<Rightarrow> Inl e
                   | Inr new_alpha \<Rightarrow> putalpha img new_alpha))))"

section \<open>Preprocessing and corner masking (process\_ai\_icon.py)\<close>

text \<open>
  \<open>make_transparent\<close>: the loop over \<open>img.getdata()\<close> appends one pixel to
  \<open>new_data\<close> per input pixel, and \<open>putdata\<close> writes the list back. The canvas is
  taken after \<open>convert('RGBA')\<close>, which leaves an RGBA image as it is.
\<close>

fun transparent_loop :: "rgba list \<Rightarrow> int \<Rightarrow> rgba list \<Rightarrow> rgba list" where
  "transparent_loop [] tolerance new_data = new_data"
| "transparent_loop (item # data) tolerance new_data =
     (if uint (red item) > 255 - tolerance \<and> uint (green item) > 255 - tolerance
         \<and> uint (blue item) > 255 - tolerance
      then transparent_loop data tolerance (new_data @ [(255, 255, 255, 0)])
      else transparent_loop data tolerance (new_data @ [item]))"

definition make_transparent :: "rgba image \<Rightarrow> int \<Rightarrow> rgba image" where
  "make_transparent img tolerance = img\<lparr>pix := transparent_loop (pix img) tolerance []\<rparr>"

text \<open>The second copy of the corner masking, lines 27-49 of process\_ai\_icon.py.\<close>

fun mask_row_ai :: "channel image \<Rightarrow> channel image \<Rightarrow> nat \<Rightarrow> nat list \<Rightarrow> channel image
    \<Rightarrow> error + channel image" where
  "mask_row_ai a msk y [] new_alpha = Inr new_alpha"
| "mask_row_ai a msk y (x # xs) new_alpha =
     (case getpixel a (x, y) of
        Inl e \<Rightarrow> Inl e
      | Inr orig_alpha \<Rightarrow>
          (case getpixel msk (x, y) of
             Inl e \<Rightarrow> Inl e
           | Inr mask_alpha \<Rightarrow>
               (case putpixel new_alpha (x, y) (min orig_alpha mask_alpha) of
                  Inl e \<Rightarrow> Inl e
                | Inr new_alpha' \<Rightarrow> mask_row_ai a msk y xs new_alpha')))"

fun mask_rows_ai :: "channel image \<Rightarrow> channel image \<Rightarrow> nat \<Rightarrow> nat list \<Rightarrow> channel image
    \<Rightarrow> error + channel image" where
  "mask_rows_ai a msk sz [] new_alpha = Inr new_alpha"
| "mask_rows_ai a msk sz (y # ys) new_alpha =
     (case mask_row_ai a msk y [0..<sz] new_alpha of
        Inl e \<Rightarrow> Inl e
      | Inr new_alpha' \<Rightarrow> mask_rows_ai a msk sz ys new_alpha')"

definition apply_macos_rounding_ai :: "rgba image \<Rightarrow> int \<Rightarrow> error + rgba image" where
  "apply_macos_rounding_ai img sz =
     (case image_new sz sz 0 of
        Inl e \<Rightarrow> Inl e
      | Inr msk0 \<Rightarrow>
          (let corner_radius = py_int (float_mul (float_of_int sz) (float_literal (2237 / 10000)))
           in case draw_rounded_rectangle msk0 (0, 0, sz - 1, sz - 1) corner_radius 255 of
                Inl e \<Rightarrow> Inl e
              | Inr msk \<Rightarrow>
                  (case split_bands img of (r, g, b, a) \<Rightarrow>
                     (case image_new sz sz 0 of
                        Inl e \<Rightarrow> Inl e
                      | Inr new_alpha0 \<Rightarrow>
                          (case mask_rows_ai a msk (nat sz) [0..<nat sz] new_alpha0 of
                             Inl e \<Rightarrow> Inl e
                           | Inr new_alpha \<Rightarrow> putalpha img new_alpha)))))"

section \<open>The icon renderer (generate\_icon.py)\<close>

text \<open>
  The renderer creates a transparent canvas and issues drawing calls on it. The imaging
  library rasterises each call in place; the model keeps the blank canvas and the calls in
  the order they are issued. The boxes and vertices of the head, ears, body and face are
  Python ints. The stamps and arrowheads lie on a circle around the centre: their float
  coordinates come from the C library's \<open>cos\<close> and \<open>sin\<close>, so a stamp is kept as the
  centre, radius, angle in degrees and half-width \<open>w\<close> its box
  \<open>[x - w, y - w, x + w, y + w]\<close> is computed from, and an arrowhead as the centre,
  radius, end angle, tip angle and the offset and distance of each vertex.
\<close>

type_synonym colour = "int \<times> int \<times> int \<times> int"

datatype draw_call =
    Ellipse "int \<times> int \<times> int \<times> int" colour
  | Polygon "(int \<times> int) list" colour
  | Stamp "int \<times> int" int int int colour
  | Arrowhead "int \<times> int" int int int "(int \<times> rat) list" colour

record drawing =
  canvas :: "rgba image"
  calls :: "draw_call list"

text \<open>\<open>range(a, b, 1)\<close>\<close>

definition py_range :: "int \<Rightarrow> int \<Rightarrow> int list" where
  "py_range a b = [a..b - 1]"

text \<open>\<open>int(k * scale)\<close>\<close>

definition int_scaled :: "int \<Rightarrow> rat \<Rightarrow> int" where
  "int_scaled k scale = py_int (float_mul (float_of_int k) scale)"

text \<open>The green sweep, lines 129-141: \<open>t = (angle + 70) / 100\<close> and the three channels
  computed from it.\<close>

definition green_t :: "int \<Rightarrow> rat" where
  "green_t angle = int_truediv (angle + 70) 100"

definition green_fill :: "rat \<Rightarrow> colour" where
  "green_fill t =
     (let r = py_int (float_sub (float_of_int 46) (float_mul (float_of_int 10) t));
          g = py_int (float_add (float_of_int 160)
                (float_mul (float_of_int 20) (float_sub (float_of_int 1) t)));
          b = py_int (float_add (float_of_int 67)
                (float_mul (float_of_int 30) (float_sub (float_of_int 1) t)))
      in (r, g, b, 255))"

definition green_arc :: "int \<times> int \<Rightarrow> int \<Rightarrow> int \<Rightarrow> draw_call list" where
  "green_arc c arc_radius arc_width =
     map (\<lambda>angle. Stamp c arc_radius angle (arc_width div 2) (green_fill (green_t angle)))
       (py_range (- 70) 30)"

text \<open>The blue sweep, lines 144-155: \<open>t = (angle - 110) / 100\<close>.\<close>

definition blue_t :: "int \<Rightarrow> rat" where
  "blue_t angle = int_truediv (angle - 110) 100"

definition blue_fill :: "rat \<Rightarrow> colour" where
  "blue_fill t =
     (let r = py_int (float_add (float_of_int 47)
                (float_mul (float_of_int 20) (float_sub (float_of_int 1) t)));
          g = py_int (float_add (float_of_int 129)
                (float_mul (float_of_int 30) (float_sub (float_of_int 1) t)));
          b = py_int (float_sub (float_of_int 247) (float_mul (float_of_int 20) t))
      in (r, g, b, 255))"

definition blue_arc :: "int \<times> int \<Rightarrow> int \<Rightarrow> int \<Rightarrow> draw_call list" where
  "blue_arc c arc_radius arc_width =
     map (\<lambda>angle. Stamp c arc_radius angle (arc_width div 2) (blue_fill (blue_t angle)))
       (py_range 110 210)"

text \<open>The vertices of an arrowhead, lines 167-172: the tip at distance \<open>arrow_size\<close>,
  the two base vertices at \<open>arrow_size * 0.55\<close>.\<close>

definition arrow_points :: "int \<Rightarrow> (int \<times> rat) list" where
  "arrow_points arrow_size =
     map (\<lambda>(i, offset). (offset,
            if i = 0 then of_int arrow_size
            else float_mul (float_of_int arrow_size) (float_literal (55 / 100))))
       (zip [0..<3] [0, 135, 225])"

definition create_icon :: "int \<Rightarrow> error + drawing" where
  "create_icon sz =
     (case image_new sz sz (0, 0, 0, 0) of
        Inl e \<Rightarrow> Inl e
      | Inr img \<Rightarrow>
          (let cx = sz div 2; cy = sz div 2;
               scale = int_truediv sz 1024;
               github_dark = (36, 41, 47, 255);
               github_green = (46, 160, 67, 255);
               github_blue = (47, 129, 247, 255);
               head_radius = int_scaled 140 scale;
               head_cx = cx;
               head_cy = cy - int_scaled 10 scale;
               head = Ellipse (head_cx - head_radius, head_cy - head_radius,
                               head_cx + head_radius, head_cy + head_radius) github_dark;
               ear_height = int_scaled 50 scale;
               ear_width = int_scaled 45 scale;
               left_ear =
                 [(head_cx - head_radius + int_scaled 25 scale,
                   head_cy - head_radius + int_scaled 35 scale),
                  (head_cx - head_radius + int_scaled 50 scale,
                   head_cy - head_radius - ear_height),
                  (head_cx - head_radius + int_scaled 80 scale,
                   head_cy - head_radius + int_scaled 25 scale)];
               right_ear =
                 [(head_cx + head_radius - int_scaled 25 scale,
                   head_cy - head_radius + int_scaled 35 scale),
                  (head_cx + head_radius - int_scaled 50 scale,
                   head_cy - head_radius - ear_height),
                  (head_cx + head_radius - int_scaled 80 scale,
                   head_cy - head_radius + int_scaled 25 scale)];
               body_w = int_scaled 100 scale;
               body_h = int_scaled 70 scale;
               body_top = head_cy + head_radius - int_scaled 20 scale;
               body = Ellipse (head_cx - body_w, body_top,
                               head_cx + body_w, body_top + body_h * 2) github_dark;
               white = (255, 255, 255, 255);
               eye_radius = int_scaled 28 scale;
               eye_y = head_cy + int_scaled 10 scale;
               eye_spacing = int_scaled 60 scale;
               left_eye = Ellipse (head_cx - eye_spacing - eye_radius, eye_y - eye_radius,
                                   head_cx - eye_spacing + eye_radius, eye_y + eye_radius) white;
               right_eye = Ellipse (head_cx + eye_spacing - eye_radius, eye_y - eye_radius,
                                    head_cx + eye_spacing + eye_radius, eye_y + eye_radius) white;
               pupil_radius = int_scaled 10 scale;
               pupil_offset_x = int_scaled 5 scale;
               pupil_offset_y = int_scaled 3 scale;
               left_pupil = Ellipse (head_cx - eye_spacing + pupil_offset_x - pupil_radius,
                                     eye_y + pupil_offset_y - pupil_radius,
                                     head_cx - eye_spacing + pupil_offset_x + pupil_radius,
                                     eye_y + pupil_offset_y + pupil_radius) github_dark;
               right_pupil = Ellipse (head_cx + eye_spacing + pupil_offset_x - pupil_radius,
                                      eye_y + pupil_offset_y - pupil_radius,
                                      head_cx + eye_spacing + pupil_offset_x + pupil_radius,
                                      eye_y + pupil_offset_y + pupil_radius) github_dark;
               highlight_r = int_scaled 6 scale;
               left_highlight = Ellipse (head_cx - eye_spacing - int_scaled 8 scale - highlight_r,
                                         eye_y - int_scaled 8 scale - highlight_r,
                                         head_cx - eye_spacing - int_scaled 8 scale + highlight_r,
                                         eye_y - int_scaled 8 scale + highlight_r) white;
               right_highlight = Ellipse (head_cx + eye_spacing - int_scaled 8 scale - highlight_r,
                                          eye_y - int_scaled 8 scale - highlight_r,
                                          head_cx + eye_spacing - int_scaled 8 scale + highlight_r,
                                          eye_y - int_scaled 8 scale + highlight_r) white;
               arc_radius = int_scaled 220 scale;
               arc_width = int_scaled 26 scale;
               arrow_size = int_scaled 45 scale;
               green_arrowhead =
                 Arrowhead (cx, cy) arc_radius 30 (30 + 90) (arrow_points arrow_size) github_green;
               blue_arrowhead =
                 Arrowhead (cx, cy) arc_radius 210 (210 + 90) (arrow_points arrow_size) github_blue
           in Inr \<lparr>canvas = img,
                    calls = [head, Polygon left_ear github_dark, Polygon right_ear github_dark,
                             body, left_eye, right_eye, left_pupil, right_pupil,
                             left_highlight, right_highlight]
                            @ green_arc (cx, cy) arc_radius arc_width
                            @ blue_arc (cx, cy) arc_radius arc_width
                            @ [green_arrowhead, blue_arrowhead]\<rparr>))"

section \<open>Sizes that are not ints\<close>

text \<open>
  Python does not fix the type of \<open>size\<close>. With a float the first statement of the
  renderer and of both copies of the masking, \<open>Image.new(mode, (size, size), colour)\<close>,
  is the only one reached: the library rejects a negative dimension with ValueError, and
  any other float dimension with TypeError. With an int the functions above run.
\<close>

datatype py_number = PyInt int | PyFloat rat

definition image_new_float :: "rat \<Rightarrow> error" where
  "image_new_float x = (if x < 0 then ValueError else TypeError)"

definition create_icon_any :: "py_number \<Rightarrow> error + drawing" where
  "create_icon_any n = (case n of
       PyInt sz \<Rightarrow> create_icon sz
     | PyFloat x \<Rightarrow> Inl (image_new_float x))"

definition apply_macos_rounding_any :: "rgba image \<Rightarrow> py_number \<Rightarrow> error + rgba image" where
  "apply_macos_rounding_any img n = (case n of
       PyInt sz \<Rightarrow> apply_macos_rounding img sz
     | PyFloat x \<Rightarrow> Inl (image_new_float x))"

definition apply_macos_rounding_ai_any :: "rgba image \<Rightarrow> py_number \<Rightarrow> error + rgba image" where
  "apply_macos_rounding_ai_any img n = (case n of
       PyInt sz \<Rightarrow> apply_macos_rounding_ai img sz
     | PyFloat x \<Rightarrow> Inl (image_new_float x))"

section \<open>Sample canvases\<close>

text \<open>A 2 by 2 canvas with four different pixels, and the opaque square canvas of a given
  side in the dark grey of the icon; the theorems below are instantiated on them.\<close>

definition sample_canvas :: "rgba image" where
  "sample_canvas =
     \<lparr>width = 2, height = 2,
      pix = [(1, 2, 3, 4), (50, 60, 70, 80), (90, 100, 110, 120), (130, 140, 150, 255)]\<rparr>"

definition opaque_canvas :: "nat \<Rightarrow> rgba image" where
  "opaque_canvas n = \<lparr>width = n, height = n, pix = replicate (n * n) (36, 41, 47, 255)\<rparr>"

section \<open>Rounding to double precision\<close>

text \<open>Powers of two, the digit count and the exponent chosen by \<open>ilog2\<close>.\<close>

lemma pow2_powi: "pow2 e = 2 powi e"
  by (simp add: pow2_def power_int_def inverse_eq_divide power_one_over)

lemma pow2_pos: "0 < pow2 e"
  by (simp add: pow2_powi)

lemma pow2_add: "pow2 (a + b) = pow2 a * pow2 b"
  by (simp add: pow2_powi power_int_add)

lemma pow2_mono: "a \<le> b \<Longrightarrow> pow2 a \<le> pow2 b"
  by (simp add: pow2_powi power_int_increasing)

lemma pow2_less_imp: "pow2 a < pow2 b \<Longrightarrow> a < b"
  using pow2_mono [of b a] by (cases "a < b") auto

lemma bitlen_bounds:
  "0 < n \<Longrightarrow> 1 \<le> bitlen n \<and> 2 ^ nat (bitlen n - 1) \<le> n \<and> n < 2 ^ nat (bitlen n)"
proof (induction n rule: bitlen.induct)
  case (1 n)
  show ?case
  proof (cases "n = 1")
    case True
    have "bitlen 1 = 1" by (simp add: bitlen.simps [of 1] bitlen.simps [of 0])
    with True show ?thesis by simp
  next
    case False
    with "1.prems" have pos: "0 < n div 2" by simp
    from "1.IH" [OF _ pos] "1.prems"
    have ih: "1 \<le> bitlen (n div 2)" "2 ^ nat (bitlen (n div 2) - 1) \<le> n div 2"
      "n div 2 < 2 ^ nat (bitlen (n div 2))" by auto
    have b: "bitlen n = 1 + bitlen (n div 2)" using "1.prems" by (simp add: bitlen.simps [of n])
    have e1: "nat (bitlen n - 1) = Suc (nat (bitlen (n div 2) - 1))" using b ih(1) by simp
    have e2: "nat (bitlen n) = Suc (nat (bitlen (n div 2)))" using b ih(1) by simp
    have "2 * 2 ^ nat (bitlen (n div 2) - 1) \<le> n" using ih(2) by simp
    moreover have "n < 2 * 2 ^ nat (bitlen (n div 2))" using ih(3) by simp
    ultimately show ?thesis using b ih(1) e1 e2 by simp
  qed
qed

lemma ilog2_bounds:
  assumes "0 < x"
  shows "pow2 (ilog2 x) \<le> x \<and> x < pow2 (ilog2 x + 1)"
proof -
  obtain n d where q: "quotient_of x = (n, d)" by (cases "quotient_of x")
  then have d: "0 < d" and x: "x = of_int n / of_int d"
    using quotient_of_denom_pos quotient_of_div by auto
  from assms x d have n: "0 < n" by (simp add: zero_less_divide_iff)
  let ?k = "bitlen n - bitlen d"
  from bitlen_bounds [OF n] have bn: "1 \<le> bitlen n" "2 ^ nat (bitlen n - 1) \<le> n" "n < 2 ^ nat (bitlen n)" by auto
  from bitlen_bounds [OF d] have bd: "1 \<le> bitlen d" "2 ^ nat (bitlen d - 1) \<le> d" "d < 2 ^ nat (bitlen d)" by auto
  have n1: "pow2 (bitlen n - 1) \<le> of_int n"
  proof -
    have "(of_int (2 ^ nat (bitlen n - 1)) :: rat) \<le> of_int n" using bn(2) by (simp only: of_int_le_iff)
    then show ?thesis using bn(1) by (simp add: pow2_def)
  qed
  have n2: "of_int n < pow2 (bitlen n)"
  proof -
    have "(of_int n :: rat) < of_int (2 ^ nat (bitlen n))" using bn(3) by (simp only: of_int_less_iff)
    then show ?thesis using bn(1) by (simp add: pow2_def)
  qed
  have d1: "pow2 (bitlen d - 1) \<le> of_int d"
  proof -
    have "(of_int (2 ^ nat (bitlen d - 1)) :: rat) \<le> of_int d" using bd(2) by (simp only: of_int_le_iff)
    then show ?thesis using bd(1) by (simp add: pow2_def)
  qed
  have d2: "of_int d < pow2 (bitlen d)"
  proof -
    have "(of_int d :: rat) < of_int (2 ^ nat (bitlen d))" using bd(3) by (simp only: of_int_less_iff)
    then show ?thesis using bd(1) by (simp add: pow2_def)
  qed
  have dpos: "(0::rat) < of_int d" using d by simp
  have lo: "pow2 (?k - 1) \<le> x"
  proof -
    have "pow2 (?k - 1) * of_int d \<le> pow2 (?k - 1) * pow2 (bitlen d)"
      using d2 pow2_pos [of "?k - 1"] by (simp add: less_imp_le)
    also have "\<dots> = pow2 (bitlen n - 1)" by (simp add: pow2_add [symmetric])
    also have "\<dots> \<le> of_int n" by (rule n1)
    finally show ?thesis using dpos by (simp add: x pos_le_divide_eq)
  qed
  have hi: "x < pow2 (?k + 1)"
  proof -
    have "of_int n < pow2 (bitlen n)" by (rule n2)
    also have "\<dots> = pow2 (?k + 1) * pow2 (bitlen d - 1)" by (simp add: pow2_add [symmetric])
    also have "\<dots> \<le> pow2 (?k + 1) * of_int d"
      using d1 pow2_pos [of "?k + 1"] by simp
    finally show ?thesis using dpos by (simp add: x pos_divide_less_eq)
  qed
  show ?thesis
  proof (cases "pow2 ?k \<le> x")
    case True
    then have "ilog2 x = ?k" by (simp add: ilog2_def q)
    with True hi show ?thesis by simp
  next
    case False
    then have "ilog2 x = ?k - 1" by (simp add: ilog2_def q)
    with False lo show ?thesis by simp
  qed
qed

lemma round_half_even_near: "\<bar>of_int (round_half_even y) - y\<bar> \<le> 1 / 2"
proof -
  have "of_int \<lfloor>y\<rfloor> \<le> y" "y < of_int \<lfloor>y\<rfloor> + 1" by linarith+
  then show ?thesis
    by (auto simp: round_half_even_def Let_def abs_le_iff not_less)
qed

lemma round_half_even_ge: "of_int z \<le> y \<Longrightarrow> z \<le> round_half_even y"
proof -
  assume "of_int z \<le> y"
  then have "z \<le> \<lfloor>y\<rfloor>" by (simp add: le_floor_iff)
  then show ?thesis by (auto simp: round_half_even_def Let_def)
qed

lemma fl_pos:
  assumes "0 < x"
  shows "fl x = of_int (round_half_even (x / pow2 (ilog2 x - 52))) * pow2 (ilog2 x - 52)"
  using assms by (simp add: fl_def Let_def)

lemma fl_error:
  assumes "0 < x" "x < pow2 k"
  shows "\<bar>fl x - x\<bar> \<le> pow2 (k - 54)"
proof -
  let ?s = "pow2 (ilog2 x - 52)"
  have s: "0 < ?s" by (rule pow2_pos)
  from ilog2_bounds [OF assms(1)] assms(2) have "pow2 (ilog2 x) < pow2 k" by simp
  then have "ilog2 x < k" by (rule pow2_less_imp)
  then have le: "pow2 (ilog2 x - 53) \<le> pow2 (k - 54)" by (intro pow2_mono) simp
  have "fl x - x = (of_int (round_half_even (x / ?s)) - x / ?s) * ?s"
    using s by (simp add: fl_pos [OF assms(1)] algebra_simps)
  then have "\<bar>fl x - x\<bar> = \<bar>of_int (round_half_even (x / ?s)) - x / ?s\<bar> * ?s"
    using s by (simp add: abs_mult)
  also have "\<dots> \<le> 1 / 2 * ?s"
    using round_half_even_near [of "x / ?s"] s by (intro mult_right_mono) simp_all
  also have "1 / 2 * ?s = pow2 (ilog2 x - 53)"
  proof -
    have "pow2 (ilog2 x - 53) = pow2 (-1) * ?s" by (simp add: pow2_add [symmetric])
    then show ?thesis by (simp add: pow2_def)
  qed
  finally show ?thesis using le by simp
qed

lemma fl_ge_int:
  assumes "0 < x" "x < pow2 53" "of_int z \<le> x"
  shows "of_int z \<le> fl x"
proof -
  let ?j = "52 - ilog2 x"
  let ?s = "pow2 (ilog2 x - 52)"
  have s: "0 < ?s" by (rule pow2_pos)
  from ilog2_bounds [OF assms(1)] assms(2) have "pow2 (ilog2 x) < pow2 53" by simp
  then have "ilog2 x < 53" by (rule pow2_less_imp)
  then have j: "0 \<le> ?j" by simp
  have inv: "pow2 ?j * ?s = 1" by (simp add: pow2_add [symmetric] pow2_def)
  have pj: "pow2 ?j = of_int (2 ^ nat ?j)" using j by (simp add: pow2_def)
  have "of_int (z * 2 ^ nat ?j) = of_int z * pow2 ?j" by (simp add: pj)
  also have "\<dots> \<le> x * pow2 ?j" using assms(3) pow2_pos [of ?j] by simp
  also have "\<dots> = x / ?s" using inv s by (simp add: field_simps)
  finally have "z * 2 ^ nat ?j \<le> round_half_even (x / ?s)" by (rule round_half_even_ge)
  then have "(of_int (z * 2 ^ nat ?j) :: rat) \<le> of_int (round_half_even (x / ?s))"
    by (simp only: of_int_le_iff)
  then have "of_int (z * 2 ^ nat ?j) * ?s \<le> of_int (round_half_even (x / ?s)) * ?s"
    using s by (simp only: mult_le_cancel_right_pos)
  moreover have "of_int (z * 2 ^ nat ?j) * ?s = of_int z"
  proof -
    have "of_int (z * 2 ^ nat ?j) * ?s = of_int z * pow2 ?j * ?s" by (simp add: pj)
    also have "\<dots> = of_int z * (pow2 ?j * ?s)" by (simp only: mult.assoc)
    also have "\<dots> = of_int z" by (simp only: inv mult_1_right)
    finally show ?thesis .
  qed
  ultimately show ?thesis by (simp only: fl_pos [OF assms(1)])
qed


lemma round_half_even_le: "y \<le> of_int z \<Longrightarrow> round_half_even y \<le> z"
proof -
  assume a: "y \<le> of_int z"
  have f: "of_int \<lfloor>y\<rfloor> \<le> y" by simp
  show ?thesis
  proof (cases "y = of_int z")
    case True
    then show ?thesis by (simp add: round_half_even_def)
  next
    case False
    with a have "y < of_int z" by simp
    then have "\<lfloor>y\<rfloor> < z" by (simp add: floor_less_iff)
    then show ?thesis by (auto simp: round_half_even_def Let_def)
  qed
qed

lemma fl_le_int:
  assumes "0 < x" "x < pow2 53" "x \<le> of_int z"
  shows "fl x \<le> of_int z"
proof -
  let ?j = "52 - ilog2 x"
  let ?s = "pow2 (ilog2 x - 52)"
  have s: "0 < ?s" by (rule pow2_pos)
  from ilog2_bounds [OF assms(1)] assms(2) have "pow2 (ilog2 x) < pow2 53" by simp
  then have "ilog2 x < 53" by (rule pow2_less_imp)
  then have j: "0 \<le> ?j" by simp
  have inv: "pow2 ?j * ?s = 1" by (simp add: pow2_add [symmetric] pow2_def)
  have pj: "pow2 ?j = of_int (2 ^ nat ?j)" using j by (simp add: pow2_def)
  have "x / ?s = x * pow2 ?j" using inv s by (simp add: field_simps)
  also have "\<dots> \<le> of_int z * pow2 ?j" using assms(3) pow2_pos [of ?j] by simp
  also have "\<dots> = of_int (z * 2 ^ nat ?j)" by (simp add: pj)
  finally have "round_half_even (x / ?s) \<le> z * 2 ^ nat ?j" by (rule round_half_even_le)
  then have "(of_int (round_half_even (x / ?s)) :: rat) \<le> of_int (z * 2 ^ nat ?j)"
    by (simp only: of_int_le_iff)
  then have "of_int (round_half_even (x / ?s)) * ?s \<le> of_int (z * 2 ^ nat ?j) * ?s"
    using s by (simp only: mult_le_cancel_right_pos)
  moreover have "of_int (z * 2 ^ nat ?j) * ?s = of_int z"
  proof -
    have "of_int (z * 2 ^ nat ?j) * ?s = of_int z * pow2 ?j * ?s" by (simp add: pj)
    also have "\<dots> = of_int z * (pow2 ?j * ?s)" by (simp only: mult.assoc)
    also have "\<dots> = of_int z" by (simp only: inv mult_1_right)
    finally show ?thesis .
  qed
  ultimately show ?thesis by (simp only: fl_pos [OF assms(1)])
qed

lemma float_of_int_exact:
  assumes "0 < i" "i < 2 ^ 53"
  shows "float_of_int i = of_int i"
proof -
  have p: "(0::rat) < of_int i" using assms(1) by simp
  have "(of_int i :: rat) < of_int (2 ^ 53)" using assms(2) by (simp only: of_int_less_iff)
  then have b: "(of_int i :: rat) < pow2 53" by (simp add: pow2_def)
  from fl_ge_int [OF p b, of i] fl_le_int [OF p b, of i] show ?thesis
    by (simp add: float_of_int_def)
qed

lemma literal_2237: "float_literal (2237 / 10000) = 251863809160695 / 1125899906842624"
  by code_simp

lemma corner_radius_floor:
  assumes "0 < sz" "sz < 2 ^ 31"
  shows "corner_radius sz = sz * 2237 div 10000"
proof -
  let ?D = "251863809160695 / 1125899906842624 :: rat"
  let ?x = "of_int sz * ?D"
  let ?k = "sz * 2237 div 10000"
  let ?m = "sz * 2237 mod 10000"
  let ?q = "of_int (sz * 2237) / 10000 :: rat"
  have s1: "(1::rat) \<le> of_int sz" using assms(1) by simp
  have "(of_int sz :: rat) < of_int (2 ^ 31)" using assms(2) by (simp only: of_int_less_iff)
  then have s2: "(of_int sz :: rat) < 2147483648" by simp
  have fi: "float_of_int sz = of_int sz"
    using assms by (intro float_of_int_exact) simp_all
  have cr: "corner_radius sz = py_int (fl ?x)"
    by (simp add: corner_radius_def fi literal_2237 float_mul_def)
  have xpos: "0 < ?x" using s1 by simp
  have x29: "?x < pow2 29" using s2 by (simp add: pow2_def)
  have x53: "?x < pow2 53" using s2 by (simp add: pow2_def)
  have km: "sz * 2237 = 10000 * ?k + ?m" by simp
  have m: "0 \<le> ?m" "?m \<le> 9999" by simp_all
  from km have "(of_int (sz * 2237) :: rat) = of_int (10000 * ?k + ?m)"
    by (simp only: of_int_eq_iff)
  also have "\<dots> = 10000 * of_int ?k + of_int ?m" by (simp only: of_int_add of_int_mult of_int_numeral)
  finally have q: "?q = of_int ?k + of_int ?m / 10000"
    by (simp only: add_divide_distrib)
  have mq: "(0::rat) \<le> of_int ?m" "(of_int ?m :: rat) \<le> 9999"
    using m by (simp_all only: of_int_0_le_iff of_int_le_numeral_iff)
  have xq: "?x = ?q + of_int sz * (7 / 703687441776640000)" by (simp add: algebra_simps)
  have lo: "of_int ?k \<le> ?x" using q mq(1) s1 xq by simp
  then have ge: "of_int ?k \<le> fl ?x" by (rule fl_ge_int [OF xpos x53])
  have err: "\<bar>fl ?x - ?x\<bar> \<le> 1 / 2 ^ 25"
    using fl_error [OF xpos x29] by (simp add: pow2_def)
  then have e2: "fl ?x - ?x \<le> 1 / 2 ^ 25" by (rule abs_le_D1)
  have ub: "?x \<le> of_int ?k + 9999 / 10000 + 2147483648 * (7 / 703687441776640000)"
    using q mq(2) s2 xq by simp
  have c: "9999 / 10000 + 2147483648 * (7 / 703687441776640000) + 1 / 2 ^ 25 < (1::rat)"
    by simp
  from e2 ub c have lt: "fl ?x < of_int ?k + 1" by linarith
  have k0: "0 \<le> ?k" using assms(1) by (simp add: pos_imp_zdiv_nonneg_iff)
  then have "(0::rat) \<le> of_int ?k" by simp
  with ge have "0 \<le> fl ?x" by linarith
  then have "py_int (fl ?x) = \<lfloor>fl ?x\<rfloor>" by (simp add: py_int_def)
  also have "\<dots> = ?k" using ge lt by (intro floor_unique) simp_all
  finally show ?thesis using cr by simp
qed

text \<open>
  Claim C4, as amended. For every positive size below \<open>2^31\<close> the corner radius is
  \<open>int(size * 0.2237)\<close>, the product truncated towards zero, which equals the integer
  quotient \<open>size * 2237 div 10000\<close>; the mask is the black band of that size with the
  rounded rectangle of this radius over the box \<open>(0, 0, size - 1, size - 1)\<close> filled with 255.
\<close>

theorem corner_radius_truncates:
  assumes "0 < sz" "sz < 2 ^ 31"
  shows "corner_radius sz = sz * 2237 div 10000 \<and>
         rounding_mask sz =
           Inr (rounded_rectangle
                  \<lparr>width = nat sz, height = nat sz, pix = replicate (nat sz * nat sz) 0\<rparr>
                  (0, 0, sz - 1, sz - 1) (sz * 2237 div 10000) 255)"
  using assms corner_radius_floor [OF assms]
  by (simp add: rounding_mask_def image_new_def draw_rounded_rectangle_def)

theorem corner_radius_truncates_witness:
  "(0::int) < 16 \<and> (16::int) < 2 ^ 31 \<and> corner_radius 16 = 3 \<and>
   rounding_mask 16 =
     Inr (rounded_rectangle \<lparr>width = 16, height = 16, pix = replicate 256 0\<rparr>
            (0, 0, 15, 15) 3 255)"
  using corner_radius_truncates [of 16] by simp

text \<open>
  Claim C4 as stated fails: at size 512 the product is 114.5344, which the code truncates
  to 114, while rounding to the nearest integer gives 115.
\<close>

lemma round_512: "py_round (float_mul (float_of_int 512) (float_literal (2237 / 10000))) = 115"
  by code_simp

theorem corner_radius_not_rounded:
  "corner_radius 512 \<noteq> py_round (float_mul (float_of_int 512) (float_literal (2237 / 10000)))"
  using corner_radius_floor [of 512] by (simp add: round_512)

section \<open>The masking loop\<close>

text \<open>Row-major indexing: a coordinate inside a row determines the index and back.\<close>

lemma index_split:
  fixes x w y i :: nat
  assumes "x < w"
  shows "i = y * w + x \<longleftrightarrow> i div w = y \<and> i mod w = x"
proof
  assume "i = y * w + x"
  with assms show "i div w = y \<and> i mod w = x" by simp
next
  assume "i div w = y \<and> i mod w = x"
  then have "y * w + x = i div w * w + i mod w" by simp
  then show "i = y * w + x" by simp
qed

text \<open>One row of the inner loop writes the clipped alpha at the visited columns of row
  \<open>y\<close> and leaves every other pixel of \<open>new_alpha\<close> as it was; it raises nothing when
  the three bands have the same dimensions.\<close>

lemma mask_row_result:
  assumes "width a = w" "height a = h" "width m = w" "height m = h"
    and "y < h" "set xs \<subseteq> {0..<w}" "width na = w" "height na = h"
  shows "\<exists>na'. mask_row a m y xs na = Inr na' \<and> width na' = w \<and> height na' = h \<and>
           length (pix na') = length (pix na) \<and>
           (\<forall>i < length (pix na). pix na' ! i =
              (if i div w = y \<and> i mod w \<in> set xs then min (pix a ! i) (pix m ! i)
               else pix na ! i))"
  using assms(6-8)
proof (induction xs arbitrary: na)
  case Nil
  then show ?case by simp
next
  case (Cons x xs)
  let ?k = "y * w + x"
  let ?v = "min (pix a ! ?k) (pix m ! ?k)"
  let ?na1 = "na\<lparr>pix := (pix na)[?k := ?v]\<rparr>"
  from Cons.prems have xw: "x < w" and sub: "set xs \<subseteq> {0..<w}" by auto
  have step: "mask_row a m y (x # xs) na = mask_row a m y xs ?na1"
    using xw assms(1-5) Cons.prems(2,3) by (simp add: getpixel_def putpixel_def)
  have "width ?na1 = w" "height ?na1 = h" using Cons.prems by simp_all
  from Cons.IH [OF sub this] obtain na' where
    r: "mask_row a m y xs ?na1 = Inr na'" "width na' = w" "height na' = h"
       "length (pix na') = length (pix ?na1)"
       "\<forall>i < length (pix ?na1). pix na' ! i =
              (if i div w = y \<and> i mod w \<in> set xs then min (pix a ! i) (pix m ! i)
               else pix ?na1 ! i)"
    by blast
  have "pix na' ! i = (if i div w = y \<and> i mod w \<in> set (x # xs) then min (pix a ! i) (pix m ! i)
               else pix na ! i)" if "i < length (pix na)" for i
  proof (cases "i = ?k")
    case True
    then have "i div w = y \<and> i mod w = x" using index_split [OF xw] by blast
    then show ?thesis using r(5) that True by (simp add: nth_list_update)
  next
    case False
    then have "\<not> (i div w = y \<and> i mod w = x)" using index_split [OF xw] by blast
    then show ?thesis using r(5) that False by (auto simp: nth_list_update)
  qed
  then show ?case using step r(1-4) by simp
qed

lemma mask_rows_result:
  assumes "width a = w" "height a = h" "width m = w" "height m = h"
    and "set ys \<subseteq> {0..<h}" "width na = w" "height na = h"
  shows "\<exists>na'. mask_rows a m w ys na = Inr na' \<and> width na' = w \<and> height na' = h \<and>
           length (pix na') = length (pix na) \<and>
           (\<forall>i < length (pix na). pix na' ! i =
              (if i div w \<in> set ys \<and> i mod w < w then min (pix a ! i) (pix m ! i)
               else pix na ! i))"
  using assms(5-7)
proof (induction ys arbitrary: na)
  case Nil
  then show ?case by simp
next
  case (Cons y ys)
  from Cons.prems have yh: "y < h" and sub: "set ys \<subseteq> {0..<h}" by auto
  from mask_row_result [OF assms(1-4) yh _ Cons.prems(2,3), of "[0..<w]"]
  obtain na1 where
    r1: "mask_row a m y [0..<w] na = Inr na1" "width na1 = w" "height na1 = h"
        "length (pix na1) = length (pix na)"
        "\<forall>i < length (pix na). pix na1 ! i =
              (if i div w = y \<and> i mod w \<in> set [0..<w] then min (pix a ! i) (pix m ! i)
               else pix na ! i)"
    by auto
  from Cons.IH [OF sub r1(2,3)] obtain na' where
    r: "mask_rows a m w ys na1 = Inr na'" "width na' = w" "height na' = h"
       "length (pix na') = length (pix na1)"
       "\<forall>i < length (pix na1). pix na' ! i =
              (if i div w \<in> set ys \<and> i mod w < w then min (pix a ! i) (pix m ! i)
               else pix na1 ! i)"
    by blast
  have "pix na' ! i = (if i div w \<in> set (y # ys) \<and> i mod w < w then min (pix a ! i) (pix m ! i)
               else pix na ! i)" if "i < length (pix na)" for i
    using r(5) r1(4,5) that by auto
  then show ?case using r1(1) r(1-4) r1(4) by simp
qed

lemma rounded_rectangle_dims [simp]:
  "width (rounded_rectangle im box r c) = width im"
  "height (rounded_rectangle im box r c) = height im"
  "length (pix (rounded_rectangle im box r c)) = length (pix im)"
  by (simp_all add: rounded_rectangle_def)

lemma rounding_mask_ok:
  assumes "0 < sz"
  shows "\<exists>msk. rounding_mask sz = Inr msk \<and> width msk = nat sz \<and> height msk = nat sz \<and>
           length (pix msk) = nat sz * nat sz"
  using assms by (simp add: rounding_mask_def image_new_def draw_rounded_rectangle_def)

lemma rounding_mask_dims:
  assumes "rounding_mask sz = Inr msk"
  shows "width msk = nat sz \<and> height msk = nat sz \<and> length (pix msk) = nat sz * nat sz"
  using assms
  by (auto simp: rounding_mask_def image_new_def draw_rounded_rectangle_def split: if_splits)

lemma mask_rows_all:
  assumes "width a = w" "height a = w" "width m = w" "height m = w"
    and "length (pix a) = w * w" "length (pix m) = w * w"
  shows "\<exists>na'. mask_rows a m w [0..<w] \<lparr>width = w, height = w, pix = replicate (w * w) 0\<rparr> = Inr na' \<and>
           width na' = w \<and> height na' = w \<and> pix na' = map2 min (pix a) (pix m)"
proof -
  let ?na = "\<lparr>width = w, height = w, pix = replicate (w * w) (0::channel)\<rparr>"
  from mask_rows_result [OF assms(1-4), of "[0..<w]" ?na] obtain na' where
    r: "mask_rows a m w [0..<w] ?na = Inr na'" "width na' = w" "height na' = w"
       "length (pix na') = length (pix ?na)"
       "\<forall>i < length (pix ?na). pix na' ! i =
              (if i div w \<in> set [0..<w] \<and> i mod w < w then min (pix a ! i) (pix m ! i)
               else pix ?na ! i)"
    by auto
  have "pix na' = map2 min (pix a) (pix m)"
  proof (rule nth_equalityI)
    show "length (pix na') = length (map2 min (pix a) (pix m))"
      using r(4) assms(5,6) by simp
  next
    fix i assume "i < length (pix na')"
    then have i: "i < w * w" using r(4) by simp
    then have "0 < w" by (cases w) auto
    then have "i mod w < w" by simp
    moreover have "i div w < w" using i by (simp add: less_mult_imp_div_less)
    ultimately have "pix na' ! i = min (pix a ! i) (pix m ! i)" using r(5) i by simp
    then show "pix na' ! i = map2 min (pix a) (pix m) ! i"
      using i assms(5,6) by simp
  qed
  then show ?thesis using r(1-3) by blast
qed

text \<open>The whole operation on a canvas of matching dimensions: it returns the canvas with
  each alpha clipped to the mask and the colour channels as they were.\<close>

lemma apply_macos_rounding_eq:
  assumes "wf_image img" "width img = nat sz" "height img = nat sz" "0 \<le> sz"
    and "rounding_mask sz = Inr msk"
  shows "apply_macos_rounding img sz =
           Inr (img\<lparr>pix := map2 (\<lambda>p m. (red p, green p, blue p, min (alpha p) m))
                            (pix img) (pix msk)\<rparr>)"
proof -
  let ?w = "nat sz"
  let ?a = "band alpha img"
  from rounding_mask_dims [OF assms(5)]
  have m: "width msk = ?w" "height msk = ?w" "length (pix msk) = ?w * ?w" by auto
  have a: "width ?a = ?w" "height ?a = ?w" "length (pix ?a) = ?w * ?w"
    using assms(1-3) by (simp_all add: band_def wf_image_def)
  from mask_rows_all [OF a(1,2) m(1,2) a(3) m(3)] obtain na' where
    r: "mask_rows ?a msk ?w [0..<?w] \<lparr>width = ?w, height = ?w, pix = replicate (?w * ?w) 0\<rparr> = Inr na'"
       "width na' = ?w" "height na' = ?w" "pix na' = map2 min (pix ?a) (pix msk)"
    by blast
  have new: "image_new sz sz (0::channel) = Inr \<lparr>width = ?w, height = ?w, pix = replicate (?w * ?w) 0\<rparr>"
    using assms(4) by (simp add: image_new_def)
  have "map2 (\<lambda>p a. (red p, green p, blue p, a)) (pix img) (map2 min (map alpha (pix img)) (pix msk))
      = map2 (\<lambda>p m. (red p, green p, blue p, min (alpha p) m)) (pix img) (pix msk)"
    by (rule nth_equalityI) simp_all
  then show ?thesis
    using assms(2,3,5) r new
    by (simp add: apply_macos_rounding_def split_bands_def putalpha_def band_def)
qed

lemma masked_pixel:
  assumes "wf_image img" "width img = nat sz" "height img = nat sz" "0 < sz"
    and "x < nat sz" "y < nat sz"
  shows "\<exists>out msk p m. apply_macos_rounding img sz = Inr out \<and> rounding_mask sz = Inr msk \<and>
           getpixel img (x, y) = Inr p \<and> getpixel msk (x, y) = Inr m \<and>
           getpixel out (x, y) = Inr (red p, green p, blue p, min (alpha p) m)"
proof -
  from rounding_mask_ok [of sz] assms(4) obtain msk where
    m: "rounding_mask sz = Inr msk" "width msk = nat sz" "height msk = nat sz"
       "length (pix msk) = nat sz * nat sz" by auto
  let ?f = "\<lambda>p m. (red p, green p, blue p, min (alpha p) m)"
  let ?out = "img\<lparr>pix := map2 ?f (pix img) (pix msk)\<rparr>"
  let ?k = "y * nat sz + x"
  have 1: "apply_macos_rounding img sz = Inr ?out"
    using apply_macos_rounding_eq [OF assms(1-3) _ m(1)] assms(4) by simp
  have "?k < nat sz * nat sz"
  proof -
    have "?k < y * nat sz + nat sz" using assms(5) by simp
    also have "\<dots> = Suc y * nat sz" by simp
    also have "\<dots> \<le> nat sz * nat sz" using assms(6) by (metis Suc_leI mult.commute mult_le_mono2)
    finally show ?thesis .
  qed
  then have k: "?k < length (pix img)" "?k < length (pix msk)"
    using assms(1-3) m(4) by (simp_all add: wf_image_def)
  have "getpixel img (x, y) = Inr (pix img ! ?k)" "getpixel msk (x, y) = Inr (pix msk ! ?k)"
    "getpixel ?out (x, y) = Inr (?f (pix img ! ?k) (pix msk ! ?k))"
    using assms(2,3,5,6) m(2,3) k by (simp_all add: getpixel_def)
  with 1 m(1) show ?thesis by blast
qed

text \<open>
  Claim C1. For every well-formed RGBA canvas and every positive size equal to its two
  dimensions, corner masking returns a canvas, and masking that canvas again with the same
  size returns the very same canvas.
\<close>

theorem masking_idempotent:
  assumes "wf_image img" "width img = nat sz" "height img = nat sz" "0 < sz"
  shows "\<exists>out. apply_macos_rounding img sz = Inr out \<and> apply_macos_rounding out sz = Inr out"
proof -
  from rounding_mask_ok [of sz] assms(4) obtain msk where
    m: "rounding_mask sz = Inr msk" "length (pix msk) = nat sz * nat sz" by auto
  let ?f = "\<lambda>p m. (red p, green p, blue p, min (alpha p) m)"
  let ?out = "img\<lparr>pix := map2 ?f (pix img) (pix msk)\<rparr>"
  have 1: "apply_macos_rounding img sz = Inr ?out"
    using apply_macos_rounding_eq [OF assms(1-3) _ m(1)] assms(4) by simp
  have wf: "wf_image ?out" "width ?out = nat sz" "height ?out = nat sz"
    using assms(1-3) m(2) by (simp_all add: wf_image_def)
  have "map2 ?f (map2 ?f (pix img) (pix msk)) (pix msk) = map2 ?f (pix img) (pix msk)"
    by (rule nth_equalityI) (simp_all add: red_def green_def blue_def alpha_def)
  then have 2: "apply_macos_rounding ?out sz = Inr ?out"
    using apply_macos_rounding_eq [OF wf _ m(1)] assms(4) by simp
  from 1 2 show ?thesis by simp
qed

theorem masking_idempotent_witness:
  "wf_image sample_canvas \<and> width sample_canvas = nat 2 \<and> height sample_canvas = nat 2 \<and>
   (0::int) < 2 \<and>
   (\<exists>out. apply_macos_rounding sample_canvas 2 = Inr out \<and> apply_macos_rounding out 2 = Inr out)"
  using masking_idempotent [of sample_canvas 2]
  by (simp add: wf_image_def sample_canvas_def)

text \<open>
  Claim C2. For every well-formed RGBA canvas, every positive size equal to its dimensions
  and every pixel coordinate inside it, the alpha of the masked canvas at that pixel is the
  minimum of the input alpha and the mask value there, hence at most the input alpha.
\<close>

theorem alpha_is_min:
  assumes "wf_image img" "width img = nat sz" "height img = nat sz" "0 < sz"
    and "x < nat sz" "y < nat sz"
  shows "\<exists>out msk p q m. apply_macos_rounding img sz = Inr out \<and> rounding_mask sz = Inr msk \<and>
           getpixel img (x, y) = Inr p \<and> getpixel msk (x, y) = Inr m \<and>
           getpixel out (x, y) = Inr q \<and> alpha q = min (alpha p) m \<and> alpha q \<le> alpha p"
proof -
  from masked_pixel [OF assms] obtain out msk p m where
    r: "apply_macos_rounding img sz = Inr out" "rounding_mask sz = Inr msk"
       "getpixel img (x, y) = Inr p" "getpixel msk (x, y) = Inr m"
       "getpixel out (x, y) = Inr (red p, green p, blue p, min (alpha p) m)"
    by blast
  have "alpha (red p, green p, blue p, min (alpha p) m) = min (alpha p) m"
    by (simp add: alpha_def)
  with r show ?thesis by force
qed

theorem alpha_is_min_witness:
  "wf_image sample_canvas \<and> width sample_canvas = nat 2 \<and> height sample_canvas = nat 2 \<and>
   (0::int) < 2 \<and> (1::nat) < nat 2 \<and> (0::nat) < nat 2 \<and>
   (\<exists>out msk p q m. apply_macos_rounding sample_canvas 2 = Inr out \<and> rounding_mask 2 = Inr msk \<and>
      getpixel sample_canvas (1, 0) = Inr p \<and> getpixel msk (1, 0) = Inr m \<and>
      getpixel out (1, 0) = Inr q \<and> alpha q = min (alpha p) m \<and> alpha q \<le> alpha p)"
  using alpha_is_min [of sample_canvas 2 1 0]
  by (simp add: wf_image_def sample_canvas_def)

text \<open>
  Claim C3. For every well-formed RGBA canvas and every positive size equal to its
  dimensions, corner masking keeps the dimensions and leaves the red, green and blue
  channels of every pixel as they were; only alpha may differ.
\<close>

theorem colour_unchanged:
  assumes "wf_image img" "width img = nat sz" "height img = nat sz" "0 < sz"
    and "x < nat sz" "y < nat sz"
  shows "\<exists>out p q. apply_macos_rounding img sz = Inr out \<and>
           width out = width img \<and> height out = height img \<and>
           getpixel img (x, y) = Inr p \<and> getpixel out (x, y) = Inr q \<and>
           red q = red p \<and> green q = green p \<and> blue q = blue p"
proof -
  from masked_pixel [OF assms] obtain out msk p m where
    r: "apply_macos_rounding img sz = Inr out" "rounding_mask sz = Inr msk"
       "getpixel img (x, y) = Inr p" "getpixel msk (x, y) = Inr m"
       "getpixel out (x, y) = Inr (red p, green p, blue p, min (alpha p) m)"
    by blast
  from rounding_mask_ok [of sz] assms(4) r(2) have "0 \<le> sz" by simp
  from apply_macos_rounding_eq [OF assms(1-3) this r(2)] r(1)
  have "width out = width img" "height out = height img" by auto
  moreover have "red (red p, green p, blue p, min (alpha p) m) = red p"
    "green (red p, green p, blue p, min (alpha p) m) = green p"
    "blue (red p, green p, blue p, min (alpha p) m) = blue p"
    by (simp_all add: red_def green_def blue_def)
  ultimately show ?thesis using r by force
qed

theorem colour_unchanged_witness:
  "wf_image sample_canvas \<and> width sample_canvas = nat 2 \<and> height sample_canvas = nat 2 \<and>
   (0::int) < 2 \<and> (1::nat) < nat 2 \<and> (1::nat) < nat 2 \<and>
   (\<exists>out p q. apply_macos_rounding sample_canvas 2 = Inr out \<and>
      width out = width sample_canvas \<and> height out = height sample_canvas \<and>
      getpixel sample_canvas (1, 1) = Inr p \<and> getpixel out (1, 1) = Inr q \<and>
      red q = red p \<and> green q = green p \<and> blue q = blue p)"
  using colour_unchanged [of sample_canvas 2 1 1]
  by (simp add: wf_image_def sample_canvas_def)

section \<open>The corners of the mask\<close>

lemma rounding_mask_pixel:
  assumes "0 \<le> sz" "rounding_mask sz = Inr msk" "x < nat sz" "y < nat sz"
  shows "getpixel msk (x, y) =
           Inr (if inside_rounded_rectangle (0, 0, sz - 1, sz - 1) (corner_radius sz) (int x, int y)
                then 255 else 0)"
proof -
  let ?w = "nat sz"
  let ?k = "y * ?w + x"
  have kw: "?k < ?w * ?w"
  proof -
    have "?k < Suc y * ?w" using assms(3) by simp
    also have "\<dots> \<le> ?w * ?w" using assms(4) by (metis Suc_leI mult.commute mult_le_mono2)
    finally show ?thesis .
  qed
  have dm: "?k mod ?w = x" "?k div ?w = y" using assms(3) by simp_all
  show ?thesis
    using assms kw dm
    by (auto simp: rounding_mask_def image_new_def draw_rounded_rectangle_def
        rounded_rectangle_def getpixel_def split: if_splits)
qed

lemma corner_radius_512: "corner_radius 512 = 114"
  using corner_radius_floor [of 512] by simp

lemma corners_outside:
  "\<not> inside_rounded_rectangle (0, 0, 511, 511) 114 (0, 0)"
  "\<not> inside_rounded_rectangle (0, 0, 511, 511) 114 (511, 0)"
  "\<not> inside_rounded_rectangle (0, 0, 511, 511) 114 (0, 511)"
  "\<not> inside_rounded_rectangle (0, 0, 511, 511) 114 (511, 511)"
  by (simp_all add: inside_rounded_rectangle_def within_radius_def)

lemma corner_alpha_zero:
  assumes "wf_image img" "width img = 512" "height img = 512" "x = 0 \<or> x = 511" "y = 0 \<or> y = 511"
    and "apply_macos_rounding img 512 = Inr out"
  shows "\<exists>q. getpixel out (x, y) = Inr q \<and> alpha q = 0"
proof -
  have xy: "x < nat 512" "y < nat 512" using assms(4,5) by auto
  from masked_pixel [of img 512 x y] assms(1-3) xy obtain out' msk p m where
    r: "apply_macos_rounding img 512 = Inr out'" "rounding_mask 512 = Inr msk"
       "getpixel msk (x, y) = Inr m"
       "getpixel out' (x, y) = Inr (red p, green p, blue p, min (alpha p) m)"
    by auto
  from rounding_mask_pixel [OF _ r(2) xy] r(3) assms(4,5) have "m = 0"
    using corners_outside by (auto simp: corner_radius_512)
  then show ?thesis using r(1,4) assms(6) by (auto simp: alpha_def)
qed

text \<open>
  Claim C7. For size 512 and every well-formed 512 by 512 RGBA canvas, corner masking
  returns a canvas whose four extreme corner pixels (0,0), (511,0), (0,511) and (511,511)
  have alpha 0: they lie outside the rounded rectangle of the mask.
\<close>

theorem corners_transparent:
  assumes "wf_image img" "width img = 512" "height img = 512"
  shows "\<exists>out. apply_macos_rounding img 512 = Inr out \<and>
           (\<exists>q. getpixel out (0, 0) = Inr q \<and> alpha q = 0) \<and>
           (\<exists>q. getpixel out (511, 0) = Inr q \<and> alpha q = 0) \<and>
           (\<exists>q. getpixel out (0, 511) = Inr q \<and> alpha q = 0) \<and>
           (\<exists>q. getpixel out (511, 511) = Inr q \<and> alpha q = 0) \<and>
           \<not> inside_rounded_rectangle (0, 0, 511, 511) (corner_radius 512) (0, 0) \<and>
           \<not> inside_rounded_rectangle (0, 0, 511, 511) (corner_radius 512) (511, 0) \<and>
           \<not> inside_rounded_rectangle (0, 0, 511, 511) (corner_radius 512) (0, 511) \<and>
           \<not> inside_rounded_rectangle (0, 0, 511, 511) (corner_radius 512) (511, 511)"
proof -
  from masked_pixel [of img 512 0 0] assms obtain out where
    o: "apply_macos_rounding img 512 = Inr out" by auto
  show ?thesis
    using o corner_alpha_zero [OF assms _ _ o] corners_outside
    by (simp add: corner_radius_512)
qed

theorem corners_transparent_witness:
  "wf_image (opaque_canvas 512) \<and> width (opaque_canvas 512) = 512 \<and>
   height (opaque_canvas 512) = 512 \<and>
   (\<exists>out. apply_macos_rounding (opaque_canvas 512) 512 = Inr out \<and>
           (\<exists>q. getpixel out (0, 0) = Inr q \<and> alpha q = 0) \<and>
           (\<exists>q. getpixel out (511, 0) = Inr q \<and> alpha q = 0) \<and>
           (\<exists>q. getpixel out (0, 511) = Inr q \<and> alpha q = 0) \<and>
           (\<exists>q. getpixel out (511, 511) = Inr q \<and> alpha q = 0) \<and>
           \<not> inside_rounded_rectangle (0, 0, 511, 511) (corner_radius 512) (0, 0) \<and>
           \<not> inside_rounded_rectangle (0, 0, 511, 511) (corner_radius 512) (511, 0) \<and>
           \<not> inside_rounded_rectangle (0, 0, 511, 511) (corner_radius 512) (0, 511) \<and>
           \<not> inside_rounded_rectangle (0, 0, 511, 511) (corner_radius 512) (511, 511))"
  using corners_transparent [of "opaque_canvas 512"]
  by (simp add: wf_image_def opaque_canvas_def)

section \<open>The two copies of the corner masking\<close>

lemma mask_row_ai_eq: "mask_row_ai a m y xs na = mask_row a m y xs na"
  by (induction xs arbitrary: na) (auto split: sum.splits)

lemma mask_rows_ai_eq: "mask_rows_ai a m w ys na = mask_rows a m w ys na"
  by (induction ys arbitrary: na) (auto simp: mask_row_ai_eq split: sum.splits)

text \<open>
  Claim C10. The corner masking of process\_ai\_icon.py and the one of generate\_icon.py
  compute the same function: on every canvas and every size both return the same canvas, or
  both raise the same error.
\<close>

theorem implementations_agree: "apply_macos_rounding_ai img sz = apply_macos_rounding img sz"
  by (simp add: apply_macos_rounding_ai_def apply_macos_rounding_def rounding_mask_def
      corner_radius_def mask_rows_ai_eq split: sum.splits)

section \<open>Background removal\<close>

lemma transparent_loop_map:
  "transparent_loop data tolerance new_data =
     new_data @ map (\<lambda>item. if uint (red item) > 255 - tolerance \<and> uint (green item) > 255 - tolerance
         \<and> uint (blue item) > 255 - tolerance then (255, 255, 255, 0) else item) data"
  by (induction data arbitrary: new_data) auto

text \<open>
  Claim C9. With tolerance 40, background removal replaces exactly the pixels whose three
  colour channels are all strictly above 255 - 40 by (255, 255, 255, 0) and keeps every
  other pixel; a (250, 250, 250) pixel becomes (255, 255, 255, 0) and a (200, 200, 200)
  pixel stays as it is, alpha included.
\<close>

theorem near_white:
  "make_transparent img 40 =
     img\<lparr>pix := map (\<lambda>item. if uint (red item) > 255 - 40 \<and> uint (green item) > 255 - 40
         \<and> uint (blue item) > 255 - 40 then (255, 255, 255, 0) else item) (pix img)\<rparr>
   \<and> make_transparent \<lparr>width = 2, height = 1, pix = [(250, 250, 250, a), (200, 200, 200, b)]\<rparr> 40
     = \<lparr>width = 2, height = 1, pix = [(255, 255, 255, 0), (200, 200, 200, b)]\<rparr>"
  by (simp add: make_transparent_def transparent_loop_map red_def green_def blue_def)

section \<open>The arc sweeps\<close>

lemma set_py_range: "angle \<in> set (py_range a b) \<longleftrightarrow> a \<le> angle \<and> angle \<le> b - 1"
  by (simp add: py_range_def)

lemma py_range_ends:
  "a < b \<Longrightarrow> hd (py_range a b) = a"
  "a < b \<Longrightarrow> last (py_range a b) = b - 1"
  "length (py_range a b) = nat (b - a)"
proof -
  show "hd (py_range a b) = a" if "a < b"
    using that by (simp add: py_range_def upto_rec1 [of a "b - 1"])
  show "last (py_range a b) = b - 1" if "a < b"
    using that by (simp add: py_range_def upto_rec2 [of a "b - 1"])
  show "length (py_range a b) = nat (b - a)"
    by (simp add: py_range_def)
qed

text \<open>The quotient \<open>i / 100\<close> of the blend parameter stays below 1 for \<open>i\<close> up to 99.\<close>

lemma truediv_below_one:
  assumes "0 \<le> i" "i \<le> 99"
  shows "0 \<le> int_truediv i 100 \<and> int_truediv i 100 < 1"
proof (cases "i = 0")
  case True
  then show ?thesis by (simp add: int_truediv_def fl_def)
next
  case False
  let ?x = "of_int i / 100 :: rat"
  from False assms(1) have "0 < i" by simp
  then have xpos: "0 < ?x" by simp
  have "(of_int i :: rat) \<le> 99" using assms(2) by (simp only: of_int_le_numeral_iff)
  then have x99: "?x \<le> 99 / 100" by simp
  then have x0: "?x < pow2 0" and x53: "?x < pow2 53" by (simp_all add: pow2_def)
  from fl_ge_int [OF xpos x53, of 0] xpos have lo: "0 \<le> fl ?x" by simp
  from fl_error [OF xpos x0] have "fl ?x - ?x \<le> pow2 (- 54)" by (simp add: abs_le_iff)
  then have "fl ?x - ?x \<le> 1 / 2 ^ 54" by (simp add: pow2_def)
  moreover have "99 / 100 + 1 / 2 ^ 54 < (1::rat)" by simp
  ultimately have "fl ?x < 1" using x99 by linarith
  with lo show ?thesis by (simp add: int_truediv_def)
qed

lemma green_t_below_one:
  assumes "angle \<in> set (py_range (- 70) 30)"
  shows "0 \<le> green_t angle \<and> green_t angle < 1"
  using assms truediv_below_one [of "angle + 70"]
  by (simp add: set_py_range green_t_def)

lemma blue_t_below_one:
  assumes "angle \<in> set (py_range 110 210)"
  shows "0 \<le> blue_t angle \<and> blue_t angle < 1"
  using assms truediv_below_one [of "angle - 110"]
  by (simp add: set_py_range blue_t_def)

text \<open>The colours of the first and the last stamp of each sweep, and the colours the
  formulas give at \<open>t = 1\<close>.\<close>

lemma green_first: "green_fill (green_t (- 70)) = (46, 180, 97, 255)"
  by code_simp

lemma green_last: "green_fill (green_t 29) = (36, 160, 67, 255)"
  by code_simp

lemma green_end: "green_fill 1 = (36, 160, 67, 255)"
  by code_simp

lemma blue_first: "blue_fill (blue_t 110) = (67, 159, 247, 255)"
  by code_simp

lemma blue_last: "blue_fill (blue_t 209) = (47, 129, 227, 255)"
  by code_simp

lemma blue_end: "blue_fill 1 = (47, 129, 227, 255)"
  by code_simp

lemma t_ends:
  "green_t (- 70) = 0" "green_t 29 = fl (99 / 100)" "green_t 30 = 1"
  "blue_t 110 = 0" "blue_t 209 = fl (99 / 100)" "blue_t 210 = 1"
  by (simp_all add: green_t_def blue_t_def int_truediv_def fl_def) code_simp+

text \<open>The stamps of a sweep, one by one, and the place of the two sweeps among the calls
  of the renderer.\<close>

lemma py_range_nth: "int k < b - a \<Longrightarrow> py_range a b ! k = a + int k"
  by (simp add: py_range_def)

lemma green_arc_nth:
  assumes "k < 100"
  shows "green_arc c r w ! k =
           Stamp c r (int k - 70) (w div 2) (green_fill (green_t (int k - 70)))"
proof -
  have "py_range (- 70) 30 ! k = int k - 70" using assms by (simp add: py_range_nth)
  then show ?thesis using assms by (simp add: green_arc_def py_range_ends)
qed

lemma blue_arc_nth:
  assumes "k < 100"
  shows "blue_arc c r w ! k =
           Stamp c r (int k + 110) (w div 2) (blue_fill (blue_t (int k + 110)))"
proof -
  have "py_range 110 210 ! k = int k + 110" using assms by (simp add: py_range_nth)
  then show ?thesis using assms by (simp add: blue_arc_def py_range_ends)
qed

lemma arc_t_values:
  "green_t (int k - 70) = float_literal (of_nat k / 100)"
  "blue_t (int k + 110) = float_literal (of_nat k / 100)"
  by (simp_all add: green_t_def blue_t_def int_truediv_def float_literal_def)

lemma arc_lengths: "length (green_arc c r w) = 100" "length (blue_arc c r w) = 100"
  by (simp_all add: green_arc_def blue_arc_def py_range_ends)

lemma create_icon_calls:
  assumes "0 \<le> sz"
  shows "\<exists>d. create_icon sz = Inr d \<and> length (calls d) = 212 \<and>
           take 100 (drop 10 (calls d)) =
             green_arc (sz div 2, sz div 2) (int_scaled 220 (int_truediv sz 1024))
               (int_scaled 26 (int_truediv sz 1024)) \<and>
           take 100 (drop 110 (calls d)) =
             blue_arc (sz div 2, sz div 2) (int_scaled 220 (int_truediv sz 1024))
               (int_scaled 26 (int_truediv sz 1024))"
  using assms by (simp add: create_icon_def image_new_def Let_def arc_lengths)

text \<open>
  Claim C5, as amended. For every non-negative size the renderer issues 212 calls, of which
  the calls 10 to 109 are the green sweep and the calls 110 to 209 the blue sweep. Each
  sweep is 100 stamps at 1-degree steps: stamp \<open>k\<close> is at the angle \<open>k - 70\<close> (green,
  -70 to 29) or \<open>k + 110\<close> (blue, 110 to 209), and its blend parameter is the double
  \<open>k / 100\<close>, so \<open>t\<close> runs over 0, 0.01, ..., 0.99 and stays below 1. The first stamp is
  sampled at \<open>t = 0\<close> and has the start colour, (46, 180, 97) and (67, 159, 247). The last
  stamp is sampled at \<open>t = 0.99\<close> and has, after truncation, the colour the formulas give
  at \<open>t = 1\<close>: (36, 160, 67) and (47, 129, 227).
\<close>

theorem arcs_sampled:
  "(0 \<le> sz \<longrightarrow>
      (\<exists>d. create_icon sz = Inr d \<and> length (calls d) = 212 \<and>
         take 100 (drop 10 (calls d)) =
           green_arc (sz div 2, sz div 2) (int_scaled 220 (int_truediv sz 1024))
             (int_scaled 26 (int_truediv sz 1024)) \<and>
         take 100 (drop 110 (calls d)) =
           blue_arc (sz div 2, sz div 2) (int_scaled 220 (int_truediv sz 1024))
             (int_scaled 26 (int_truediv sz 1024)))) \<and>
   length (green_arc c r w) = 100 \<and> length (blue_arc c r w) = 100 \<and>
   (k < 100 \<longrightarrow>
      green_arc c r w ! k =
        Stamp c r (int k - 70) (w div 2) (green_fill (green_t (int k - 70))) \<and>
      green_t (int k - 70) = float_literal (of_nat k / 100) \<and> green_t (int k - 70) < 1 \<and>
      blue_arc c r w ! k =
        Stamp c r (int k + 110) (w div 2) (blue_fill (blue_t (int k + 110))) \<and>
      blue_t (int k + 110) = float_literal (of_nat k / 100) \<and> blue_t (int k + 110) < 1) \<and>
   green_arc c r w ! 0 = Stamp c r (- 70) (w div 2) (46, 180, 97, 255) \<and> green_t (- 70) = 0 \<and>
   green_arc c r w ! 99 = Stamp c r 29 (w div 2) (36, 160, 67, 255) \<and>
   green_t 29 = float_literal (99 / 100) \<and> green_fill 1 = (36, 160, 67, 255) \<and>
   blue_arc c r w ! 0 = Stamp c r 110 (w div 2) (67, 159, 247, 255) \<and> blue_t 110 = 0 \<and>
   blue_arc c r w ! 99 = Stamp c r 209 (w div 2) (47, 129, 227, 255) \<and>
   blue_t 209 = float_literal (99 / 100) \<and> blue_fill 1 = (47, 129, 227, 255)"
proof -
  have sweep: "k < 100 \<longrightarrow>
      green_arc c r w ! k =
        Stamp c r (int k - 70) (w div 2) (green_fill (green_t (int k - 70))) \<and>
      green_t (int k - 70) = float_literal (of_nat k / 100) \<and> green_t (int k - 70) < 1 \<and>
      blue_arc c r w ! k =
        Stamp c r (int k + 110) (w div 2) (blue_fill (blue_t (int k + 110))) \<and>
      blue_t (int k + 110) = float_literal (of_nat k / 100) \<and> blue_t (int k + 110) < 1"
  proof
    assume k: "k < 100"
    then have "int k - 70 \<in> set (py_range (- 70) 30)" "int k + 110 \<in> set (py_range 110 210)"
      by (simp_all add: set_py_range)
    then have "green_t (int k - 70) < 1" "blue_t (int k + 110) < 1"
      using green_t_below_one blue_t_below_one by blast+
    then show "green_arc c r w ! k =
        Stamp c r (int k - 70) (w div 2) (green_fill (green_t (int k - 70))) \<and>
      green_t (int k - 70) = float_literal (of_nat k / 100) \<and> green_t (int k - 70) < 1 \<and>
      blue_arc c r w ! k =
        Stamp c r (int k + 110) (w div 2) (blue_fill (blue_t (int k + 110))) \<and>
      blue_t (int k + 110) = float_literal (of_nat k / 100) \<and> blue_t (int k + 110) < 1"
      using green_arc_nth [OF k] blue_arc_nth [OF k] arc_t_values by simp
  qed
  have g0: "green_arc c r w ! 0 = Stamp c r (- 70) (w div 2) (46, 180, 97, 255)"
    using green_arc_nth [of 0 c r w] by (simp add: green_first)
  have g99: "green_arc c r w ! 99 = Stamp c r 29 (w div 2) (36, 160, 67, 255)"
    using green_arc_nth [of 99 c r w] by (simp add: green_last)
  have b0: "blue_arc c r w ! 0 = Stamp c r 110 (w div 2) (67, 159, 247, 255)"
    using blue_arc_nth [of 0 c r w] by (simp add: blue_first)
  have b99: "blue_arc c r w ! 99 = Stamp c r 209 (w div 2) (47, 129, 227, 255)"
    using blue_arc_nth [of 99 c r w] by (simp add: blue_last)
  have t99: "green_t 29 = float_literal (99 / 100)" "blue_t 209 = float_literal (99 / 100)"
    using arc_t_values [of 99] by simp_all
  have ci: "0 \<le> sz \<longrightarrow>
      (\<exists>d. create_icon sz = Inr d \<and> length (calls d) = 212 \<and>
         take 100 (drop 10 (calls d)) =
           green_arc (sz div 2, sz div 2) (int_scaled 220 (int_truediv sz 1024))
             (int_scaled 26 (int_truediv sz 1024)) \<and>
         take 100 (drop 110 (calls d)) =
           blue_arc (sz div 2, sz div 2) (int_scaled 220 (int_truediv sz 1024))
             (int_scaled 26 (int_truediv sz 1024)))"
    using create_icon_calls by blast
  from ci sweep g0 g99 b0 b99 t99 arc_lengths t_ends(1,4) green_end blue_end
  show ?thesis by blast
qed

theorem arcs_sampled_witness:
  "(0::int) \<le> 1024 \<and>
   (\<exists>d. create_icon 1024 = Inr d \<and> length (calls d) = 212 \<and>
      take 100 (drop 10 (calls d)) =
        green_arc (512, 512) (int_scaled 220 (int_truediv 1024 1024))
          (int_scaled 26 (int_truediv 1024 1024))) \<and>
   (50::nat) < 100 \<and>
   green_arc (512, 512) 220 26 ! 50 = Stamp (512, 512) 220 (- 20) 13 (green_fill (green_t (- 20))) \<and>
   green_t (- 20) = float_literal (50 / 100) \<and> green_t (- 20) < 1 \<and>
   blue_arc (512, 512) 220 26 ! 50 = Stamp (512, 512) 220 160 13 (blue_fill (blue_t 160)) \<and>
   blue_t 160 < 1"
proof -
  note a = arcs_sampled [of 1024 "(512, 512)" 220 26 50]
  from a have "\<exists>d. create_icon 1024 = Inr d \<and> length (calls d) = 212 \<and>
      take 100 (drop 10 (calls d)) =
        green_arc (512, 512) (int_scaled 220 (int_truediv 1024 1024))
          (int_scaled 26 (int_truediv 1024 1024))"
    by auto
  moreover from a have
    "green_arc (512, 512) 220 26 ! 50 = Stamp (512, 512) 220 (- 20) 13 (green_fill (green_t (- 20)))"
    "green_t (- 20) = float_literal (50 / 100)" "green_t (- 20) < 1"
    "blue_arc (512, 512) 220 26 ! 50 = Stamp (512, 512) 220 160 13 (blue_fill (blue_t 160))"
    "blue_t 160 < 1"
    by simp_all
  ultimately show ?thesis by simp
qed

text \<open>
  Claim C5 as stated fails: the end angle of a sweep is not sampled, so no stamp of either
  sweep has the blend parameter 1.
\<close>

theorem no_stamp_at_one:
  "1 \<notin> set (map green_t (py_range (- 70) 30)) \<and> 1 \<notin> set (map blue_t (py_range 110 210))"
  using green_t_below_one blue_t_below_one by fastforce

section \<open>Invalid sizes\<close>

lemma create_icon_negative: "sz < 0 \<Longrightarrow> create_icon sz = Inl ValueError"
  by (simp add: create_icon_def image_new_def)

lemma create_icon_canvas:
  "0 \<le> sz \<Longrightarrow> map_sum id canvas (create_icon sz) =
     Inr \<lparr>width = nat sz, height = nat sz, pix = replicate (nat sz * nat sz) (0, 0, 0, 0)\<rparr>"
  by (simp add: create_icon_def image_new_def Let_def)

lemma masking_nonpositive:
  "sz \<le> 0 \<Longrightarrow> apply_macos_rounding img sz = Inl ValueError"
  by (simp add: apply_macos_rounding_def rounding_mask_def image_new_def
      draw_rounded_rectangle_def)

lemma masking_ai_nonpositive:
  "sz \<le> 0 \<Longrightarrow> apply_macos_rounding_ai img sz = Inl ValueError"
  by (simp add: apply_macos_rounding_ai_def image_new_def draw_rounded_rectangle_def)

text \<open>
  Claim C6, as amended. Every invalid size but one makes the operations fail with an error
  of the library before a canvas is returned: a negative int in the renderer and in both
  copies of the masking (ValueError of \<open>Image.new\<close>); size 0 in both copies of the masking
  (ValueError of \<open>rounded_rectangle\<close>, whose box is (0, 0, -1, -1)); a float in all three
  (\<open>Image.new\<close>: ValueError when negative, TypeError otherwise). The exception is the
  renderer at size 0: it raises nothing and returns an empty canvas of 0 by 0 pixels.
\<close>

theorem invalid_size:
  "(sz < 0 \<longrightarrow> create_icon_any (PyInt sz) = Inl ValueError) \<and>
   (sz \<le> 0 \<longrightarrow> apply_macos_rounding_any img (PyInt sz) = Inl ValueError \<and>
      apply_macos_rounding_ai_any img (PyInt sz) = Inl ValueError) \<and>
   create_icon_any (PyFloat x) = Inl (if x < 0 then ValueError else TypeError) \<and>
   apply_macos_rounding_any img (PyFloat x) = Inl (if x < 0 then ValueError else TypeError) \<and>
   apply_macos_rounding_ai_any img (PyFloat x) = Inl (if x < 0 then ValueError else TypeError) \<and>
   map_sum id canvas (create_icon_any (PyInt 0)) = Inr \<lparr>width = 0, height = 0, pix = []\<rparr>"
  using create_icon_canvas [of 0]
  by (simp add: create_icon_any_def apply_macos_rounding_any_def apply_macos_rounding_ai_any_def
      image_new_float_def create_icon_negative masking_nonpositive masking_ai_nonpositive)

theorem invalid_size_witness:
  "(- 1 :: int) < 0 \<and> create_icon_any (PyInt (- 1)) = Inl ValueError \<and>
   (0 :: int) \<le> 0 \<and> apply_macos_rounding_any sample_canvas (PyInt 0) = Inl ValueError \<and>
   apply_macos_rounding_ai_any sample_canvas (PyInt 0) = Inl ValueError \<and>
   apply_macos_rounding_any sample_canvas (PyInt (- 1)) = Inl ValueError \<and>
   create_icon_any (PyFloat (5 / 2)) = Inl TypeError \<and>
   apply_macos_rounding_any sample_canvas (PyFloat (5 / 2)) = Inl TypeError"
  using invalid_size [of "- 1" sample_canvas "5 / 2"] invalid_size [of 0 sample_canvas "5 / 2"]
  by simp

text \<open>
  Claim C6 as stated fails: size 0 is among the invalid sizes of the claim, and the renderer
  returns a canvas for it instead of an error.
\<close>

theorem size_zero_accepted:
  "\<not> isl (create_icon 0) \<and>
   map_sum id canvas (create_icon 0) = Inr \<lparr>width = 0, height = 0, pix = []\<rparr> \<and>
   create_icon_any (PyInt 0) = create_icon 0"
proof -
  have c: "map_sum id canvas (create_icon 0) = Inr \<lparr>width = 0, height = 0, pix = []\<rparr>"
    using create_icon_canvas [of 0] by simp
  then have "\<not> isl (create_icon 0)" by (cases "create_icon 0") simp_all
  with c show ?thesis by (simp add: create_icon_any_def)
qed

end
